theory Spec2Isabelle
  imports Main
begin

section \<open>based-connect: the command-line front end (main.c)\<close>

text \<open>
  The repository's \<^verbatim>\<open>main.c\<close> parses the command line, opens an RFCOMM socket to the
  headphones, performs the handshake and then applies the requested settings in turn.
  The protocol functions (\<^verbatim>\<open>init_connection\<close>, \<^verbatim>\<open>set_name\<close>, \<^verbatim>\<open>set_noise_cancelling\<close>,
  \<^verbatim>\<open>set_auto_off\<close>, \<^verbatim>\<open>set_prompt_language\<close>) and the system calls are external to this
  file: each call is recorded as an event of a trace, and its integer result is given by
  a \<^emph>\<open>world\<close>, a function of the trace so far and of the call.
\<close>

subsection \<open>Declarations of based.h used by main.c\<close>

text \<open>
  \<^verbatim>\<open>based.h\<close> is not part of the sources at hand. The enumerators below are the ones
  \<^verbatim>\<open>main.c\<close> names; the value of \<^verbatim>\<open>MAX_NAME_LEN\<close> and the integer values of the
  \<^verbatim>\<open>AutoOff\<close> enumerators (which \<^verbatim>\<open>do_set_auto_off\<close> compares with the result of
  \<^verbatim>\<open>atoi\<close>) are parameters of the model, collected in a record.
\<close>

datatype NoiseCancelling = NC_HIGH | NC_LOW | NC_OFF

datatype AutoOff = AO_NEVER | AO_5_MIN | AO_20_MIN | AO_40_MIN | AO_60_MIN | AO_180_MIN

datatype PromptLanguage =
  PL_OFF | PL_EN | PL_FR | PL_IT | PL_DE | PL_ES | PL_PT | PL_ZH | PL_KO | PL_NL | PL_JA | PL_SV

record based_h =
  MAX_NAME_LEN :: nat
  AutoOff_value :: "AutoOff \<Rightarrow> int"

subsection \<open>Events and worlds\<close>

datatype sockopt = SO_SNDTIMEO | SO_RCVTIMEO

text \<open>What the program writes with \<^verbatim>\<open>fprintf(stderr, ...)\<close>, one constructor per format string.\<close>

datatype message =
    NameExceeds nat
  | InvalidNoiseCancelling string
  | InvalidAutoOff string
  | InvalidPromptLanguage string
  | AddressMissing
  | AddressSurplus

text \<open>
  \<open>SetSockOpt opt sec usec\<close> is \<^verbatim>\<open>setsockopt(sock, SOL_SOCKET, opt, &tv, sizeof(tv))\<close> with
  \<^verbatim>\<open>tv = { sec, usec }\<close>; \<open>SetName\<close> carries the whole \<^verbatim>\<open>name_buffer\<close> array;
  \<open>Usage p\<close> is the call \<^verbatim>\<open>usage(p)\<close>; \<open>Perror\<close> carries the prefix given to \<^verbatim>\<open>perror\<close>.
\<close>

datatype event =
    Socket
  | SetSockOpt sockopt int int
  | Connect string
  | InitConnection
  | SetName string
  | SetNoiseCancelling NoiseCancelling
  | SetAutoOff AutoOff
  | SetPromptLanguage PromptLanguage
  | Close
  | Stderr message
  | Usage string
  | Perror string

type_synonym world = "event list \<Rightarrow> event \<Rightarrow> int"

text \<open>An external call: its result is the world's, and the call is appended to the trace.\<close>

definition call :: "world \<Rightarrow> event list \<Rightarrow> event \<Rightarrow> int \<times> event list" where
  "call w tr e = (w tr e, tr @ [e])"

subsection \<open>C strings\<close>

text \<open>
  An argument string (\<^verbatim>\<open>const char *\<close>) is the list of its characters before the
  terminating NUL, so \<^verbatim>\<open>strlen\<close> is \<open>length\<close> and \<^verbatim>\<open>strcmp(a, b) == 0\<close> is \<open>a = b\<close>.
  A character array is the list of all its cells.
\<close>

definition NUL :: char where
  "NUL = CHR 0x00"

text \<open>\<^verbatim>\<open>strncpy(dst, src, n)\<close>: the first \<open>n\<close> cells of \<open>dst\<close> receive the characters of
  \<open>src\<close>, at most \<open>n\<close> of them, padded with NUL when \<open>src\<close> is shorter.\<close>

definition strncpy :: "string \<Rightarrow> string \<Rightarrow> nat \<Rightarrow> string" where
  "strncpy dst src n = take n src @ replicate (n - length src) NUL @ drop n dst"

text \<open>The C string a character array holds: its cells up to the first NUL.\<close>

definition c_str :: "string \<Rightarrow> string" where
  "c_str buf = takeWhile (\<lambda>c. c \<noteq> NUL) buf"

definition isspace :: "char \<Rightarrow> bool" where
  "isspace c \<longleftrightarrow> c = CHR '' '' \<or> (9 \<le> (of_char c :: nat) \<and> (of_char c :: nat) \<le> 13)"

definition isdigit :: "char \<Rightarrow> bool" where
  "isdigit c \<longleftrightarrow> 48 \<le> (of_char c :: nat) \<and> (of_char c :: nat) \<le> 57"

fun digits :: "int \<Rightarrow> string \<Rightarrow> int" where
  "digits acc [] = acc"
| "digits acc (c # cs) =
     (if isdigit c then digits (acc * 10 + (int (of_char c) - 48)) cs else acc)"

text \<open>\<^verbatim>\<open>atoi\<close>: leading white space, an optional sign, then the decimal digits up to the
  first other character. (The C function is undefined when the value does not fit an
  \<^verbatim>\<open>int\<close>; the model computes it in the integers.)\<close>

definition atoi :: "string \<Rightarrow> int" where
  "atoi s =
     (case dropWhile isspace s of
        [] \<Rightarrow> 0
      | c # cs \<Rightarrow>
          if c = CHR ''-'' then - digits 0 cs
          else if c = CHR ''+'' then digits 0 cs
          else digits 0 (c # cs))"

subsection \<open>The four option handlers\<close>

definition do_set_name :: "based_h \<Rightarrow> world \<Rightarrow> event list \<Rightarrow> string \<Rightarrow> int \<times> event list" where
  "do_set_name H w tr arg =
     (let name_buffer = replicate (MAX_NAME_LEN H + 1) NUL in
      if length arg > MAX_NAME_LEN H then
        (1, tr @ [Stderr (NameExceeds (MAX_NAME_LEN H))])
      else
        call w tr (SetName (strncpy name_buffer arg (MAX_NAME_LEN H))))"

text \<open>
  \<^verbatim>\<open>do_set_noise_cancelling\<close> and \<^verbatim>\<open>do_set_prompt_language\<close> compare the global
  \<^verbatim>\<open>optarg\<close>, not their parameter \<^verbatim>\<open>arg\<close>, which they only print; the global is an
  explicit argument here.
\<close>

definition do_set_noise_cancelling ::
  "world \<Rightarrow> string \<Rightarrow> event list \<Rightarrow> string \<Rightarrow> int \<times> event list" where
  "do_set_noise_cancelling w optarg tr arg =
     (if optarg = ''high'' then call w tr (SetNoiseCancelling NC_HIGH)
      else if optarg = ''low'' then call w tr (SetNoiseCancelling NC_LOW)
      else if optarg = ''off'' then call w tr (SetNoiseCancelling NC_OFF)
      else (1, tr @ [Stderr (InvalidNoiseCancelling arg)]))"

text \<open>
  In \<^verbatim>\<open>do_set_auto_off\<close> the six case labels assign \<^verbatim>\<open>ao = parsed\<close> (\<open>ao\<close> stays
  unassigned for any other value) and, there being no \<^verbatim>\<open>break\<close>, control falls from them
  into the \<^verbatim>\<open>default\<close> branch, which either overwrites \<open>ao\<close> with \<^verbatim>\<open>AO_NEVER\<close> or returns.
\<close>

definition do_set_auto_off :: "based_h \<Rightarrow> world \<Rightarrow> event list \<Rightarrow> string \<Rightarrow> int \<times> event list" where
  "do_set_auto_off H w tr arg =
     (let parsed = atoi arg;
          ao = find (\<lambda>m. AutoOff_value H m = parsed)
                 [AO_NEVER, AO_5_MIN, AO_20_MIN, AO_40_MIN, AO_60_MIN, AO_180_MIN]
      in
        if arg = ''never'' then call w tr (SetAutoOff AO_NEVER)
        else (1, tr @ [Stderr (InvalidAutoOff arg)]))"

definition do_set_prompt_language ::
  "world \<Rightarrow> string \<Rightarrow> event list \<Rightarrow> string \<Rightarrow> int \<times> event list" where
  "do_set_prompt_language w optarg tr arg =
     (if optarg = ''off'' then call w tr (SetPromptLanguage PL_OFF)
      else if optarg = ''en'' then call w tr (SetPromptLanguage PL_EN)
      else if optarg = ''fr'' then call w tr (SetPromptLanguage PL_FR)
      else if optarg = ''it'' then call w tr (SetPromptLanguage PL_IT)
      else if optarg = ''de'' then call w tr (SetPromptLanguage PL_DE)
      else if optarg = ''es'' then call w tr (SetPromptLanguage PL_ES)
      else if optarg = ''pt'' then call w tr (SetPromptLanguage PL_PT)
      else if optarg = ''zh'' then call w tr (SetPromptLanguage PL_ZH)
      else if optarg = ''ko'' then call w tr (SetPromptLanguage PL_KO)
      else if optarg = ''nl'' then call w tr (SetPromptLanguage PL_NL)
      else if optarg = ''ja'' then call w tr (SetPromptLanguage PL_JA)
      else if optarg = ''sv'' then call w tr (SetPromptLanguage PL_SV)
      else (1, tr @ [Stderr (InvalidPromptLanguage arg)]))"

subsection \<open>The command line and main\<close>

text \<open>
  \<^verbatim>\<open>getopt_long\<close> belongs to the C library. An invocation is given by what it yields on
  \<^verbatim>\<open>argv\<close>: the successive pairs of its return value (an option character, or \<open>?\<close> for an
  unknown option or a missing argument) and \<^verbatim>\<open>optarg\<close>, in command-line order, and the
  operands \<^verbatim>\<open>argv[optind], ..., argv[argc - 1]\<close> left once it returns \<open>-1\<close>. Both scans of
  \<^verbatim>\<open>main\<close> (the second after \<^verbatim>\<open>optind = 1\<close>) read the same sequence.
\<close>

record invocation =
  program :: string
  options :: "(char \<times> string) list"
  operands :: "string list"

datatype outcome = Return int | Abort

text \<open>The first scan: \<open>Some r\<close> when the loop leaves \<^verbatim>\<open>main\<close> with \<^verbatim>\<open>return r\<close>.\<close>

fun verify_options :: "(char \<times> string) list \<Rightarrow> int option" where
  "verify_options [] = None"
| "verify_options ((opt, optarg) # rest) =
     (if opt = CHR ''h'' then Some 0
      else if opt = CHR ''?'' then Some 1
      else verify_options rest)"

text \<open>The \<^verbatim>\<open>switch (opt)\<close> of the second scan: \<open>None\<close> when it ends in \<^verbatim>\<open>abort()\<close>.\<close>

definition apply_option ::
  "based_h \<Rightarrow> world \<Rightarrow> char \<Rightarrow> string \<Rightarrow> event list \<Rightarrow> (int \<times> event list) option" where
  "apply_option H w opt optarg tr =
     (if opt = CHR ''n'' then Some (do_set_name H w tr optarg)
      else if opt = CHR ''c'' then Some (do_set_noise_cancelling w optarg tr optarg)
      else if opt = CHR ''o'' then Some (do_set_auto_off H w tr optarg)
      else if opt = CHR ''l'' then Some (do_set_prompt_language w optarg tr optarg)
      else None)"

text \<open>The second scan, from the current \<^verbatim>\<open>status\<close>: the loop stops at the end of the
  options, at a nonzero status, or in \<^verbatim>\<open>abort()\<close> (\<open>None\<close>).\<close>

fun apply_options ::
  "based_h \<Rightarrow> world \<Rightarrow> (char \<times> string) list \<Rightarrow> int \<Rightarrow> event list \<Rightarrow> int option \<times> event list" where
  "apply_options H w [] status tr = (Some status, tr)"
| "apply_options H w ((opt, optarg) # rest) status tr =
     (if status \<noteq> 0 then (Some status, tr)
      else
        (case apply_option H w opt optarg tr of
           None \<Rightarrow> (None, tr)
         | Some (status', tr') \<Rightarrow> apply_options H w rest status' tr'))"

definition main :: "based_h \<Rightarrow> world \<Rightarrow> invocation \<Rightarrow> outcome \<times> event list" where
  "main H w cmd =
     (case call w [Socket] (SetSockOpt SO_SNDTIMEO 5 0) of (r1, tr1) \<Rightarrow>
      (if r1 < 0 then (Return 1, tr1 @ [Perror ''Could not set socket send timeout''])
       else
      (case call w tr1 (SetSockOpt SO_RCVTIMEO 1 0) of (r2, tr2) \<Rightarrow>
      (if r2 < 0 then (Return 1, tr2 @ [Perror ''Could not set socket recieve timeout''])
       else
      (case verify_options (options cmd) of
        Some r \<Rightarrow> (Return r, if r = 0 then tr2 @ [Usage (program cmd)] else tr2)
      | None \<Rightarrow>
      (if length (operands cmd) \<noteq> 1 then
        (Return 1,
         tr2 @ [Stderr (if operands cmd = [] then AddressMissing else AddressSurplus),
                Usage (program cmd)])
       else
      (case call w tr2 (Connect (hd (operands cmd))) of (r3, tr3) \<Rightarrow>
      (if r3 \<noteq> 0 then (Return 1, tr3 @ [Perror ''Could not connect to Bluetooth device''])
       else
      (case call w tr3 InitConnection of (status0, tr4) \<Rightarrow>
      (case apply_options H w (options cmd) status0 tr4 of
        (None, tr5) \<Rightarrow> (Abort, tr5)
      | (Some status, tr5) \<Rightarrow>
          (Return status,
           (if status < 0 then tr5 @ [Perror ''Error trying to change setting''] else tr5)
             @ [Close])))))))))))"

subsection \<open>Observations on traces\<close>

fun is_setter :: "event \<Rightarrow> bool" where
  "is_setter (SetName b) = True"
| "is_setter (SetNoiseCancelling nc) = True"
| "is_setter (SetAutoOff ao) = True"
| "is_setter (SetPromptLanguage pl) = True"
| "is_setter e = False"

text \<open>The protocol operations: the handshake and the four setters.\<close>

definition is_protocol_op :: "event \<Rightarrow> bool" where
  "is_protocol_op e \<longleftrightarrow> e = InitConnection \<or> is_setter e"

fun is_setsockopt :: "event \<Rightarrow> bool" where
  "is_setsockopt (SetSockOpt opt sec usec) = True"
| "is_setsockopt e = False"

text \<open>The two timeout settings of \<^verbatim>\<open>main\<close>.\<close>

abbreviation snd_timeout :: event where
  "snd_timeout \<equiv> SetSockOpt SO_SNDTIMEO 5 0"

abbreviation rcv_timeout :: event where
  "rcv_timeout \<equiv> SetSockOpt SO_RCVTIMEO 1 0"

text \<open>
  The invocation gets as far as \<^verbatim>\<open>init_connection\<close>: both \<^verbatim>\<open>setsockopt\<close> calls succeed,
  the first scan finds neither \<open>h\<close> nor \<open>?\<close>, there is exactly one operand, and
  \<^verbatim>\<open>connect\<close> returns 0. \<open>prelude\<close> is the trace up to that point.
\<close>

definition reaches_handshake :: "world \<Rightarrow> invocation \<Rightarrow> bool" where
  "reaches_handshake w cmd \<longleftrightarrow>
     0 \<le> w [Socket] snd_timeout \<and>
     0 \<le> w [Socket, snd_timeout] rcv_timeout \<and>
     verify_options (options cmd) = None \<and>
     length (operands cmd) = 1 \<and>
     w [Socket, snd_timeout, rcv_timeout] (Connect (hd (operands cmd))) = 0"

definition prelude :: "invocation \<Rightarrow> event list" where
  "prelude cmd = [Socket, snd_timeout, rcv_timeout, Connect (hd (operands cmd))]"

text \<open>What \<^verbatim>\<open>main\<close> does after the second scan, whose outcome is \<open>r\<close>: nothing more
  after \<^verbatim>\<open>abort()\<close>; otherwise \<^verbatim>\<open>perror\<close> when the status is negative, \<^verbatim>\<open>close\<close>, and
  the status is returned.\<close>

definition epilogue :: "int option \<Rightarrow> event list" where
  "epilogue r =
     (case r of
        None \<Rightarrow> []
      | Some status \<Rightarrow>
          (if status < 0 then [Perror ''Error trying to change setting''] else []) @ [Close])"

definition result :: "int option \<Rightarrow> outcome" where
  "result r = (case r of None \<Rightarrow> Abort | Some status \<Rightarrow> Return status)"

subsection \<open>The closed enumerations, as the specification lists them\<close>

definition spec_noise_cancelling :: "string \<Rightarrow> NoiseCancelling option" where
  "spec_noise_cancelling = map_of [(''high'', NC_HIGH), (''low'', NC_LOW), (''off'', NC_OFF)]"

definition spec_auto_off :: "string \<Rightarrow> AutoOff option" where
  "spec_auto_off =
     map_of [(''never'', AO_NEVER), (''5'', AO_5_MIN), (''20'', AO_20_MIN), (''40'', AO_40_MIN),
             (''60'', AO_60_MIN), (''180'', AO_180_MIN)]"

definition spec_prompt_language :: "string \<Rightarrow> PromptLanguage option" where
  "spec_prompt_language =
     map_of [(''off'', PL_OFF), (''en'', PL_EN), (''fr'', PL_FR), (''it'', PL_IT),
             (''de'', PL_DE), (''es'', PL_ES), (''pt'', PL_PT), (''zh'', PL_ZH),
             (''ko'', PL_KO), (''nl'', PL_NL), (''ja'', PL_JA), (''sv'', PL_SV)]"

text \<open>An option whose argument lies outside the closed enumeration of that option.\<close>

definition spec_invalid_setting :: "char \<times> string \<Rightarrow> bool" where
  "spec_invalid_setting x \<longleftrightarrow>
     (fst x = CHR ''c'' \<and> spec_noise_cancelling (snd x) = None) \<or>
     (fst x = CHR ''o'' \<and> spec_auto_off (snd x) = None) \<or>
     (fst x = CHR ''l'' \<and> spec_prompt_language (snd x) = None)"

subsection \<open>Options, their setter calls and their rejection messages\<close>

text \<open>
  The array of \<^verbatim>\<open>MAX_NAME_LEN + 1\<close> cells that holds the first \<^verbatim>\<open>MAX_NAME_LEN\<close>
  characters of a name, padded with NUL.
\<close>

definition spec_name_buffer :: "based_h \<Rightarrow> string \<Rightarrow> string" where
  "spec_name_buffer H name =
     take (MAX_NAME_LEN H) name @
     replicate (MAX_NAME_LEN H + 1 - length (take (MAX_NAME_LEN H) name)) NUL"

text \<open>
  The setter call that belongs to an option of the command line: the name as a buffer,
  and for the enumerated settings the member that the closed enumeration gives for the
  argument (none for an argument outside it, none for any other option character).
\<close>

definition spec_setter :: "based_h \<Rightarrow> char \<times> string \<Rightarrow> event option" where
  "spec_setter H x =
     (if fst x = CHR ''n'' then Some (SetName (spec_name_buffer H (snd x)))
      else if fst x = CHR ''c'' then map_option SetNoiseCancelling (spec_noise_cancelling (snd x))
      else if fst x = CHR ''o'' then map_option SetAutoOff (spec_auto_off (snd x))
      else if fst x = CHR ''l'' then map_option SetPromptLanguage (spec_prompt_language (snd x))
      else None)"

text \<open>The message with which the handler of an option rejects an argument, as the
  four \<^verbatim>\<open>fprintf(stderr, ...)\<close> calls of the handlers print it.\<close>

definition rejection :: "based_h \<Rightarrow> char \<times> string \<Rightarrow> message" where
  "rejection H x =
     (if fst x = CHR ''n'' then NameExceeds (MAX_NAME_LEN H)
      else if fst x = CHR ''c'' then InvalidNoiseCancelling (snd x)
      else if fst x = CHR ''o'' then InvalidAutoOff (snd x)
      else InvalidPromptLanguage (snd x))"

text \<open>
  What a handler does with an option \<open>x\<close> from trace \<open>tr\<close> is one of two things: one call,
  of the setter that belongs to \<open>x\<close>, whose result is the status; or the rejection
  message and status 1.
\<close>

definition handled ::
  "based_h \<Rightarrow> world \<Rightarrow> event list \<Rightarrow> char \<times> string \<Rightarrow> int \<times> event list \<Rightarrow> bool" where
  "handled H w tr x res \<longleftrightarrow>
     (\<exists>e. is_setter e \<and> spec_setter H x = Some e \<and> res = (w tr e, tr @ [e])) \<or>
     res = (1, tr @ [Stderr (rejection H x)])"

subsection \<open>Sample parameters\<close>

text \<open>A header in which the auto-off enumerators are their minute counts, and a world in
  which every external call returns 0.\<close>

fun minutes :: "AutoOff \<Rightarrow> int" where
  "minutes AO_NEVER = 0"
| "minutes AO_5_MIN = 5"
| "minutes AO_20_MIN = 20"
| "minutes AO_40_MIN = 40"
| "minutes AO_60_MIN = 60"
| "minutes AO_180_MIN = 180"

definition sample_h :: based_h where
  "sample_h = \<lparr>MAX_NAME_LEN = 31, AutoOff_value = minutes\<rparr>"

definition all_ok :: world where
  "all_ok tr e = 0"

text \<open>A world in which the call \<open>f\<close> returns \<open>-1\<close> and every other call 0.\<close>

definition failing :: "event \<Rightarrow> world" where
  "failing f tr e = (if e = f then - 1 else 0)"

definition sample_cmd :: "(char \<times> string) list \<Rightarrow> string list \<Rightarrow> invocation" where
  "sample_cmd os as = \<lparr>program = ''based-connect'', options = os, operands = as\<rparr>"

section \<open>Properties\<close>

subsection \<open>The option handlers in closed form\<close>

lemma call_simps: "fst (call w tr e) = w tr e" "snd (call w tr e) = tr @ [e]"
  by (simp_all add: call_def)

lemma do_set_noise_cancelling_table:
  "do_set_noise_cancelling w a tr a =
     (case spec_noise_cancelling a of
        Some nc \<Rightarrow> (w tr (SetNoiseCancelling nc), tr @ [SetNoiseCancelling nc])
      | None \<Rightarrow> (1, tr @ [Stderr (InvalidNoiseCancelling a)]))"
  by (simp add: do_set_noise_cancelling_def spec_noise_cancelling_def call_def)

lemma do_set_prompt_language_table:
  "do_set_prompt_language w a tr a =
     (case spec_prompt_language a of
        Some pl \<Rightarrow> (w tr (SetPromptLanguage pl), tr @ [SetPromptLanguage pl])
      | None \<Rightarrow> (1, tr @ [Stderr (InvalidPromptLanguage a)]))"
  by (simp add: do_set_prompt_language_def spec_prompt_language_def call_def)

lemma do_set_auto_off_never:
  "do_set_auto_off H w tr a =
     (if a = ''never'' then (w tr (SetAutoOff AO_NEVER), tr @ [SetAutoOff AO_NEVER])
      else (1, tr @ [Stderr (InvalidAutoOff a)]))"
  by (simp add: do_set_auto_off_def Let_def call_def)

subsection \<open>Setting the name\<close>

text \<open>
  C1. The claim has \<^verbatim>\<open>do_set_name\<close> apply the first \<^verbatim>\<open>MAX_NAME_LEN\<close> characters of a name
  that is too long. The code does announce a truncation, but it returns 1 without calling
  \<^verbatim>\<open>set_name\<close> at all: the only new event is the message.
\<close>

theorem do_set_name_too_long:
  "MAX_NAME_LEN H < length arg \<Longrightarrow>
     do_set_name H w tr arg = (1, tr @ [Stderr (NameExceeds (MAX_NAME_LEN H))])"
  by (simp add: do_set_name_def)

theorem do_set_name_too_long_witness:
  "MAX_NAME_LEN sample_h < length (replicate 32 CHR ''a'') \<and>
   do_set_name sample_h all_ok [] (replicate 32 CHR ''a'') = (1, [Stderr (NameExceeds 31)])"
  using do_set_name_too_long [of sample_h "replicate 32 CHR ''a''" all_ok "[]"]
  by (simp add: sample_h_def)

lemma takeWhile_not_NUL_padding: "takeWhile (\<lambda>c. c \<noteq> NUL) (replicate k NUL @ [NUL]) = []"
  by (cases k) simp_all

lemma c_str_padded: "NUL \<notin> set s \<Longrightarrow> c_str (s @ replicate k NUL @ [NUL]) = s"
  by (induction s) (auto simp add: c_str_def takeWhile_not_NUL_padding)

lemma drop_fresh_buffer: "drop n (x # replicate n x) = [x]"
proof -
  have "x # replicate n x = replicate n x @ [x]"
    by (simp add: replicate_append_same)
  then show ?thesis by simp
qed

lemma strncpy_fresh_buffer:
  "length src \<le> n \<Longrightarrow>
     strncpy (NUL # replicate n NUL) src n = src @ replicate (n - length src) NUL @ [NUL]"
  unfolding strncpy_def drop_fresh_buffer by simp

text \<open>
  C9. For a name of at most \<^verbatim>\<open>MAX_NAME_LEN\<close> characters, \<^verbatim>\<open>do_set_name\<close> calls \<^verbatim>\<open>set_name\<close>
  once, with the \<^verbatim>\<open>MAX_NAME_LEN + 1\<close> cells of \<^verbatim>\<open>name_buffer\<close>: they end in NUL and hold
  exactly the argument as a C string. Nothing else is added to the trace (no message), and
  the status returned is the result of \<^verbatim>\<open>set_name\<close>.
\<close>

theorem do_set_name_fits:
  assumes "length arg \<le> MAX_NAME_LEN H" and "NUL \<notin> set arg"
  shows "\<exists>buf. do_set_name H w tr arg = (w tr (SetName buf), tr @ [SetName buf]) \<and>
     length buf = MAX_NAME_LEN H + 1 \<and> last buf = NUL \<and> c_str buf = arg"
proof -
  let ?n = "MAX_NAME_LEN H"
  let ?buf = "arg @ replicate (?n - length arg) NUL @ [NUL]"
  have "do_set_name H w tr arg = (w tr (SetName ?buf), tr @ [SetName ?buf])"
    using assms(1) by (simp add: do_set_name_def call_def strncpy_fresh_buffer)
  moreover have "length ?buf = ?n + 1" using assms(1) by simp
  moreover have "last ?buf = NUL" by simp
  moreover have "c_str ?buf = arg" using assms(2) by (rule c_str_padded)
  ultimately show ?thesis by blast
qed

theorem do_set_name_fits_witness:
  "\<exists>buf. do_set_name sample_h all_ok [] ''Bose'' = (0, [SetName buf]) \<and>
     length buf = 32 \<and> last buf = NUL \<and> c_str buf = ''Bose''"
  using do_set_name_fits [of "''Bose''" sample_h all_ok "[]"]
  by (simp add: sample_h_def all_ok_def NUL_def)

subsection \<open>The enumerated settings\<close>

text \<open>
  C2. The claim has the auto-off parser accept the six strings of the enumeration. In the
  code every argument other than \<open>never\<close> is rejected with status 1 and no call of
  \<^verbatim>\<open>set_auto_off\<close>, the numeric ones included: the case labels fall through to the
  \<^verbatim>\<open>default\<close> branch.
\<close>

theorem do_set_auto_off_rejects_all_but_never:
  "arg \<noteq> ''never'' \<Longrightarrow>
     do_set_auto_off H w tr arg = (1, tr @ [Stderr (InvalidAutoOff arg)])"
  by (simp add: do_set_auto_off_def Let_def)

theorem do_set_auto_off_rejects_5:
  "spec_auto_off ''5'' = Some AO_5_MIN \<and>
   do_set_auto_off sample_h all_ok [] ''5'' = (1, [Stderr (InvalidAutoOff ''5'')])"
  using do_set_auto_off_rejects_all_but_never [of "''5''" sample_h all_ok "[]"]
  by (simp add: spec_auto_off_def)

text \<open>
  C7. Called as \<^verbatim>\<open>main\<close> calls them (with \<^verbatim>\<open>optarg\<close> as argument), the noise-cancelling and
  prompt-language handlers call their setter with the enumerator the table gives for the
  string and return the setter's result; for every string outside the table they return 1
  and add only the message to the trace.
\<close>

theorem parsers_closed_enumerations:
  "do_set_noise_cancelling w a tr a =
     (case spec_noise_cancelling a of
        Some nc \<Rightarrow> (w tr (SetNoiseCancelling nc), tr @ [SetNoiseCancelling nc])
      | None \<Rightarrow> (1, tr @ [Stderr (InvalidNoiseCancelling a)])) \<and>
   do_set_prompt_language w a tr a =
     (case spec_prompt_language a of
        Some pl \<Rightarrow> (w tr (SetPromptLanguage pl), tr @ [SetPromptLanguage pl])
      | None \<Rightarrow> (1, tr @ [Stderr (InvalidPromptLanguage a)]))"
  by (simp only: do_set_noise_cancelling_table do_set_prompt_language_table)

theorem parsers_closed_enumerations_witness:
  "do_set_noise_cancelling (failing (SetNoiseCancelling NC_LOW)) ''low'' [] ''low'' =
     (- 1, [SetNoiseCancelling NC_LOW]) \<and>
   do_set_prompt_language all_ok ''tlh'' [] ''tlh'' = (1, [Stderr (InvalidPromptLanguage ''tlh'')])"
  using parsers_closed_enumerations [of "failing (SetNoiseCancelling NC_LOW)" "''low''" "[]"]
    parsers_closed_enumerations [of all_ok "''tlh''" "[]"]
  by (simp add: spec_noise_cancelling_def spec_prompt_language_def failing_def)

subsection \<open>One option of the second scan\<close>

lemma apply_option_n:
  "apply_option H w CHR ''n'' a tr = Some (do_set_name H w tr a)"
  by (simp add: apply_option_def)

lemma apply_option_c:
  "apply_option H w CHR ''c'' a tr = Some (do_set_noise_cancelling w a tr a)"
  by (simp add: apply_option_def)

lemma apply_option_o:
  "apply_option H w CHR ''o'' a tr = Some (do_set_auto_off H w tr a)"
  by (simp add: apply_option_def)

lemma apply_option_l:
  "apply_option H w CHR ''l'' a tr = Some (do_set_prompt_language w a tr a)"
  by (simp add: apply_option_def)

lemma apply_option_other:
  "opt \<notin> {CHR ''n'', CHR ''c'', CHR ''o'', CHR ''l''} \<Longrightarrow> apply_option H w opt a tr = None"
  by (simp add: apply_option_def)

lemma apply_option_abort:
  "apply_option H w opt a tr = None \<Longrightarrow> opt \<notin> {CHR ''n'', CHR ''c'', CHR ''o'', CHR ''l''}"
  by (auto simp add: apply_option_def split: if_splits)

lemma fresh_buffer_spec:
  "length a \<le> n \<Longrightarrow>
     a @ replicate (n - length a) NUL @ [NUL] = take n a @ replicate (n + 1 - length (take n a)) NUL"
  by (simp add: replicate_append_same Suc_diff_le)

lemma handled_name: "handled H w tr (CHR ''n'', a) (do_set_name H w tr a)"
proof (cases "length a \<le> MAX_NAME_LEN H")
  case True
  then have "strncpy (NUL # replicate (MAX_NAME_LEN H) NUL) a (MAX_NAME_LEN H) =
      spec_name_buffer H a"
    unfolding spec_name_buffer_def by (simp only: strncpy_fresh_buffer fresh_buffer_spec)
  with True show ?thesis
    by (simp add: handled_def do_set_name_def call_def spec_setter_def)
next
  case False
  then show ?thesis
    by (simp add: handled_def do_set_name_def rejection_def)
qed

lemma handled_noise_cancelling:
  "handled H w tr (CHR ''c'', a) (do_set_noise_cancelling w a tr a)"
  by (simp add: handled_def do_set_noise_cancelling_table spec_setter_def rejection_def
      split: option.split)

lemma handled_auto_off: "handled H w tr (CHR ''o'', a) (do_set_auto_off H w tr a)"
  by (simp add: handled_def do_set_auto_off_never spec_setter_def rejection_def spec_auto_off_def)

lemma handled_prompt_language:
  "handled H w tr (CHR ''l'', a) (do_set_prompt_language w a tr a)"
  by (simp add: handled_def do_set_prompt_language_table spec_setter_def rejection_def
      split: option.split)

lemma apply_option_handled:
  assumes "apply_option H w opt a tr = Some res"
  shows "handled H w tr (opt, a) res"
proof -
  consider "opt = CHR ''n''" | "opt = CHR ''c''" | "opt = CHR ''o''" | "opt = CHR ''l''"
    | "opt \<notin> {CHR ''n'', CHR ''c'', CHR ''o'', CHR ''l''}"
    by blast
  then show ?thesis
  proof cases
    case 1
    with assms show ?thesis using handled_name [of H w tr a] by (simp add: apply_option_n)
  next
    case 2
    with assms show ?thesis
      using handled_noise_cancelling [of H w tr a] by (simp add: apply_option_c)
  next
    case 3
    with assms show ?thesis using handled_auto_off [of H w tr a] by (simp add: apply_option_o)
  next
    case 4
    with assms show ?thesis
      using handled_prompt_language [of H w tr a] by (simp add: apply_option_l)
  next
    case 5
    with assms show ?thesis using apply_option_other [of opt H w a tr] by simp
  qed
qed

lemma spec_invalid_no_setter:
  "spec_invalid_setting x \<Longrightarrow>
     spec_setter H x = None \<and> fst x \<in> {CHR ''c'', CHR ''o'', CHR ''l''}"
  by (auto simp add: spec_invalid_setting_def spec_setter_def)

subsection \<open>The second scan\<close>

lemma apply_options_failed:
  "st \<noteq> 0 \<Longrightarrow> apply_options H w os st tr = (Some st, tr)"
  by (cases os) auto

lemma split_after_head:
  assumes "e # ext = p @ e0 # q"
  shows "(p = [] \<and> e0 = e \<and> q = ext) \<or> (\<exists>p'. p = e # p' \<and> ext = p' @ e0 # q)"
  using assms by (cases p) auto


lemma take_before_none:
  assumes "map Some calls = map f (take k (pre @ x # post))" and "f x = None"
  shows "k \<le> length pre \<and> take k (pre @ x # post) = take k pre"
proof -
  have "k \<le> length pre"
  proof (rule ccontr)
    assume "\<not> k \<le> length pre"
    then have "x \<in> set (take k (pre @ x # post))"
      by (cases "k - length pre") auto
    then have "f x \<in> set (map f (take k (pre @ x # post)))"
      unfolding set_map by (rule imageI)
    with assms(1) have "f x \<in> set (map Some calls)" by simp
    with assms(2) show False by auto
  qed
  then show ?thesis by simp
qed

text \<open>
  The loop extends the trace by the setter calls of the first \<open>k\<close> options, in their
  order, followed by at most one rejection message, that of option \<open>k\<close>. Nothing follows
  a setter that fails. The loop ends with status 0 only after all options; and when it
  stops before the last option without a message, then the status was nonzero from the
  start, or the last setter called has failed, or the loop ended in \<^verbatim>\<open>abort()\<close>.
\<close>

lemma apply_options_shape:
  "apply_options H w os st tr = (r, tr') \<Longrightarrow>
     \<exists>calls k stop. tr' = tr @ calls @ stop \<and> k \<le> length os \<and>
       map Some calls = map (spec_setter H) (take k os) \<and>
       (\<forall>e\<in>set calls. is_setter e) \<and>
       (\<forall>p e q. calls = p @ e # q \<longrightarrow> w (tr @ p) e \<noteq> 0 \<longrightarrow> q = []) \<and>
       (r = Some 0 \<longrightarrow> k = length os \<and> stop = []) \<and>
       (stop = [] \<or> k < length os \<and> stop = [Stderr (rejection H (os ! k))] \<and> r = Some 1) \<and>
       (k < length os \<longrightarrow> stop = [] \<longrightarrow>
          st \<noteq> 0 \<or> (\<exists>p e. calls = p @ [e] \<and> w (tr @ p) e \<noteq> 0) \<or>
          r = None \<and> fst (os ! k) \<notin> {CHR ''n'', CHR ''c'', CHR ''o'', CHR ''l''})"
proof (induction os arbitrary: st tr)
  case Nil
  then have "tr' = tr @ [] @ []" by simp
  then show ?case by (intro exI [of _ "[]"] exI [of _ 0]) simp
next
  case (Cons x os)
  obtain opt a where x: "x = (opt, a)" by (cases x)
  show ?case
  proof (cases "st \<noteq> 0")
    case True
    then have "apply_options H w (x # os) st tr = (Some st, tr)"
      by (rule apply_options_failed)
    with Cons.prems True have "tr' = tr" "r \<noteq> Some 0" by auto
    with True show ?thesis by (intro exI [of _ "[]"] exI [of _ 0]) simp
  next
    case st0: False
    show ?thesis
    proof (cases "apply_option H w opt a tr")
      case None
      with Cons.prems st0 x have "tr' = tr" "r = None" by auto
      moreover from apply_option_abort [OF None] x
      have "fst ((x # os) ! 0) \<notin> {CHR ''n'', CHR ''c'', CHR ''o'', CHR ''l''}" by simp
      ultimately show ?thesis by (intro exI [of _ "[]"] exI [of _ 0]) simp
    next
      case (Some res)
      obtain st1 tr1 where res: "res = (st1, tr1)" by (cases res)
      from Cons.prems st0 x Some res
      have rest: "apply_options H w os st1 tr1 = (r, tr')" by simp
      from apply_option_handled [OF Some]
      consider (called) e where "is_setter e" "spec_setter H (opt, a) = Some e"
          "res = (w tr e, tr @ [e])"
        | (rejected) "res = (1, tr @ [Stderr (rejection H (opt, a))])"
        unfolding handled_def by blast
      then show ?thesis
      proof cases
        case called
        with res have st1: "st1 = w tr e" and tr1: "tr1 = tr @ [e]" by simp_all
        from Cons.IH [OF rest] obtain calls k stop where
          ext: "tr' = tr1 @ calls @ stop" and k: "k \<le> length os" and
          table: "map Some calls = map (spec_setter H) (take k os)" and
          evs: "\<forall>e\<in>set calls. is_setter e" and
          short: "\<forall>p e q. calls = p @ e # q \<longrightarrow> w (tr1 @ p) e \<noteq> 0 \<longrightarrow> q = []" and
          complete: "r = Some 0 \<longrightarrow> k = length os \<and> stop = []" and
          stop: "stop = [] \<or> k < length os \<and> stop = [Stderr (rejection H (os ! k))] \<and> r = Some 1" and
          why: "k < length os \<longrightarrow> stop = [] \<longrightarrow>
            st1 \<noteq> 0 \<or> (\<exists>p e. calls = p @ [e] \<and> w (tr1 @ p) e \<noteq> 0) \<or>
            r = None \<and> fst (os ! k) \<notin> {CHR ''n'', CHR ''c'', CHR ''o'', CHR ''l''}"
          by blast
        have nothing_after: "calls = []" if "w tr e \<noteq> 0"
        proof -
          from that st1 have "apply_options H w os st1 tr1 = (Some st1, tr1)"
            by (intro apply_options_failed) simp
          with rest ext show ?thesis by simp
        qed
        have short': "q = []" if "e # calls = p @ e0 # q" "w (tr @ p) e0 \<noteq> 0" for p e0 q
          using split_after_head [OF that(1)]
        proof (elim disjE conjE exE)
          assume "p = []" "e0 = e" "q = calls"
          with that(2) nothing_after show ?thesis by simp
        next
          fix p' assume "p = e # p'" "calls = p' @ e0 # q"
          with that(2) short tr1 show ?thesis by simp
        qed
        have why': "st \<noteq> 0 \<or> (\<exists>p e0. e # calls = p @ [e0] \<and> w (tr @ p) e0 \<noteq> 0) \<or>
            r = None \<and> fst ((x # os) ! Suc k) \<notin> {CHR ''n'', CHR ''c'', CHR ''o'', CHR ''l''}"
          if "Suc k < length (x # os)" "stop = []"
        proof -
          from that why consider "st1 \<noteq> 0"
            | p e0 where "calls = p @ [e0]" "w (tr1 @ p) e0 \<noteq> 0"
            | "r = None" "fst (os ! k) \<notin> {CHR ''n'', CHR ''c'', CHR ''o'', CHR ''l''}"
            by auto
          then show ?thesis
          proof cases
            case 1
            with st1 nothing_after have "e # calls = [] @ [e]" "w (tr @ []) e \<noteq> 0" by simp_all
            then show ?thesis by blast
          next
            case 2
            with tr1 have "e # calls = (e # p) @ [e0]" "w (tr @ e # p) e0 \<noteq> 0" by simp_all
            then show ?thesis by blast
          next
            case 3
            then show ?thesis by simp
          qed
        qed
        show ?thesis
        proof (rule exI [of _ "e # calls"], rule exI [of _ "Suc k"], rule exI [of _ stop],
            intro conjI)
          show "tr' = tr @ (e # calls) @ stop" using ext tr1 by simp
          show "Suc k \<le> length (x # os)" using k by simp
          show "map Some (e # calls) = map (spec_setter H) (take (Suc k) (x # os))"
            using table called(2) x by simp
          show "\<forall>e\<in>set (e # calls). is_setter e" using evs called(1) by simp
          show "\<forall>p e0 q. e # calls = p @ e0 # q \<longrightarrow> w (tr @ p) e0 \<noteq> 0 \<longrightarrow> q = []"
            using short' by blast
          show "r = Some 0 \<longrightarrow> Suc k = length (x # os) \<and> stop = []" using complete by simp
          show "stop = [] \<or> Suc k < length (x # os) \<and>
              stop = [Stderr (rejection H ((x # os) ! Suc k))] \<and> r = Some 1"
            using stop by simp
          show "Suc k < length (x # os) \<longrightarrow> stop = [] \<longrightarrow>
              st \<noteq> 0 \<or> (\<exists>p e0. e # calls = p @ [e0] \<and> w (tr @ p) e0 \<noteq> 0) \<or>
              r = None \<and> fst ((x # os) ! Suc k) \<notin> {CHR ''n'', CHR ''c'', CHR ''o'', CHR ''l''}"
            using why' by blast
        qed
      next
        case rejected
        with res have st1: "st1 = 1" and tr1: "tr1 = tr @ [Stderr (rejection H x)]"
          using x by simp_all
        from st1 have "apply_options H w os st1 tr1 = (Some 1, tr1)"
          by (simp add: apply_options_failed)
        with rest tr1 have "r = Some 1" "tr' = tr @ [] @ [Stderr (rejection H ((x # os) ! 0))]"
          by simp_all
        then show ?thesis
          by - (rule exI [of _ "[]"], rule exI [of _ 0],
              rule exI [of _ "[Stderr (rejection H ((x # os) ! 0))]"], simp)
      qed
    qed
  qed
qed

subsection \<open>The runs of main\<close>

lemma main_late:
  "reaches_handshake w cmd \<Longrightarrow>
     main H w cmd =
       (case apply_options H w (options cmd) (w (prelude cmd) InitConnection)
               (prelude cmd @ [InitConnection]) of
          (None, tr5) \<Rightarrow> (Abort, tr5)
        | (Some status, tr5) \<Rightarrow>
            (Return status,
             (if status < 0 then tr5 @ [Perror ''Error trying to change setting''] else tr5)
               @ [Close]))"
  by (simp add: reaches_handshake_def main_def call_def prelude_def)

lemma main_early:
  "\<not> reaches_handshake w cmd \<Longrightarrow>
     (\<exists>r tl. main H w cmd = (Return r, Socket # snd_timeout # tl) \<and>
        (\<forall>e\<in>set tl. \<not> is_protocol_op e \<and> e \<noteq> Close) \<and>
        filter is_setsockopt tl \<in> {[], [rcv_timeout]})"
  by (auto simp add: reaches_handshake_def main_def call_def is_protocol_op_def
      split: option.splits)

lemma main_late_loop:
  "reaches_handshake w cmd \<Longrightarrow>
     apply_options H w (options cmd) (w (prelude cmd) InitConnection)
       (prelude cmd @ [InitConnection]) = (r, tr5) \<Longrightarrow>
     main H w cmd = (result r, tr5 @ epilogue r)"
  by (simp add: main_late result_def epilogue_def split: option.split)

lemma epilogue_events:
  "e \<in> set (epilogue r) \<Longrightarrow> e = Close \<or> e = Perror ''Error trying to change setting''"
  by (auto simp add: epilogue_def split: option.splits if_splits)


text \<open>
  The run of an invocation that reaches the handshake.
\<close>

lemma main_late_shape:
  assumes "reaches_handshake w cmd"
  shows "\<exists>r calls k stop.
     main H w cmd = (result r, prelude cmd @ InitConnection # calls @ stop @ epilogue r) \<and>
     k \<le> length (options cmd) \<and>
     map Some calls = map (spec_setter H) (take k (options cmd)) \<and>
     (\<forall>e\<in>set calls. is_setter e) \<and>
     (\<forall>p e q. calls = p @ e # q \<longrightarrow> w (prelude cmd @ InitConnection # p) e \<noteq> 0 \<longrightarrow> q = []) \<and>
     (w (prelude cmd) InitConnection \<noteq> 0 \<longrightarrow> calls = []) \<and>
     (r = Some 0 \<longrightarrow> k = length (options cmd) \<and> stop = []) \<and>
     (stop = [] \<or> k < length (options cmd) \<and>
        stop = [Stderr (rejection H (options cmd ! k))] \<and> r = Some 1) \<and>
     (k < length (options cmd) \<longrightarrow> stop = [] \<longrightarrow>
        w (prelude cmd) InitConnection \<noteq> 0 \<or>
        (\<exists>p e. calls = p @ [e] \<and> w (prelude cmd @ InitConnection # p) e \<noteq> 0) \<or>
        r = None \<and> fst (options cmd ! k) \<notin> {CHR ''n'', CHR ''c'', CHR ''o'', CHR ''l''})"
proof -
  let ?st = "w (prelude cmd) InitConnection"
  let ?tr = "prelude cmd @ [InitConnection]"
  obtain r tr5 where loop: "apply_options H w (options cmd) ?st ?tr = (r, tr5)"
    by (cases "apply_options H w (options cmd) ?st ?tr")
  from apply_options_shape [OF loop] obtain calls k stop where
    ext: "tr5 = ?tr @ calls @ stop" and k: "k \<le> length (options cmd)" and
    table: "map Some calls = map (spec_setter H) (take k (options cmd))" and
    evs: "\<forall>e\<in>set calls. is_setter e" and
    short: "\<forall>p e q. calls = p @ e # q \<longrightarrow> w (?tr @ p) e \<noteq> 0 \<longrightarrow> q = []" and
    complete: "r = Some 0 \<longrightarrow> k = length (options cmd) \<and> stop = []" and
    stop: "stop = [] \<or> k < length (options cmd) \<and>
        stop = [Stderr (rejection H (options cmd ! k))] \<and> r = Some 1" and
    why: "k < length (options cmd) \<longrightarrow> stop = [] \<longrightarrow>
        ?st \<noteq> 0 \<or> (\<exists>p e. calls = p @ [e] \<and> w (?tr @ p) e \<noteq> 0) \<or>
        r = None \<and> fst (options cmd ! k) \<notin> {CHR ''n'', CHR ''c'', CHR ''o'', CHR ''l''}"
    by blast
  have failed: "calls = []" if "?st \<noteq> 0"
    using apply_options_failed [OF that, of H w "options cmd" ?tr] loop ext by simp
  have run: "main H w cmd = (result r, prelude cmd @ InitConnection # calls @ stop @ epilogue r)"
    using main_late_loop [OF assms loop] ext by simp
  show ?thesis
    using run k table evs short failed complete stop why
    by - (rule exI [of _ r], rule exI [of _ calls], rule exI [of _ k], rule exI [of _ stop],
        simp)
qed

lemma setsockopt_other:
  "is_setsockopt e \<Longrightarrow> \<not> is_setter e \<and> (\<forall>m. e \<noteq> Stderr m)"
  by (cases e) simp_all

lemma filter_none:
  "(\<And>e. e \<in> set xs \<Longrightarrow> \<not> P e) \<Longrightarrow> filter P xs = []"
  by (simp add: filter_empty_conv)

lemma epilogue_no_ops [simp]:
  "filter is_protocol_op (epilogue r) = []" "filter is_setter (epilogue r) = []"
  "filter is_setsockopt (epilogue r) = []"
  by (auto intro!: filter_none dest!: epilogue_events simp add: is_protocol_op_def)

lemma stop_no_ops:
  assumes "stop = [] \<or> P \<and> stop = [Stderr m] \<and> Q"
  shows "filter is_protocol_op stop = []" "filter is_setter stop = []"
    "filter is_setsockopt stop = []"
  using assms by (auto simp add: is_protocol_op_def)

lemma calls_all_ops:
  assumes "\<forall>e\<in>set calls. is_setter e"
  shows "filter is_protocol_op calls = calls" "filter is_setter calls = calls"
    "filter is_setsockopt calls = []"
  using assms setsockopt_other by (auto simp add: is_protocol_op_def filter_empty_conv)

lemma prelude_no_ops [simp]:
  "filter is_protocol_op (prelude cmd) = []" "filter is_setter (prelude cmd) = []"
  "filter is_setsockopt (prelude cmd) = [snd_timeout, rcv_timeout]"
  by (simp_all add: prelude_def is_protocol_op_def)


text \<open>
  C10. With no options and one operand, once both \<^verbatim>\<open>setsockopt\<close> calls and \<^verbatim>\<open>connect\<close>
  have succeeded, the run is: the handshake, once, right after \<^verbatim>\<open>connect\<close>; no setter; the
  \<^verbatim>\<open>perror\<close> line when the handshake's status is negative; \<^verbatim>\<open>close\<close>; and the exit status
  is the handshake's status.
\<close>

theorem main_address_only:
  assumes "options cmd = []" and "operands cmd = [addr]"
    and "0 \<le> w [Socket] snd_timeout"
    and "0 \<le> w [Socket, snd_timeout] rcv_timeout"
    and "w [Socket, snd_timeout, rcv_timeout] (Connect addr) = 0"
  shows "main H w cmd =
     (Return (w [Socket, snd_timeout, rcv_timeout, Connect addr] InitConnection),
      [Socket, snd_timeout, rcv_timeout, Connect addr, InitConnection] @
      (if w [Socket, snd_timeout, rcv_timeout, Connect addr] InitConnection < 0
       then [Perror ''Error trying to change setting''] else []) @
      [Close])"
  using assms by (simp add: main_def call_def)

theorem main_address_only_witness:
  "main sample_h (failing InitConnection) (sample_cmd [] [''00:0C:8A:00:00:01'']) =
     (Return (- 1),
      [Socket, snd_timeout, rcv_timeout, Connect ''00:0C:8A:00:00:01'', InitConnection,
       Perror ''Error trying to change setting'', Close])"
  using main_address_only [of "sample_cmd [] [''00:0C:8A:00:00:01'']" "''00:0C:8A:00:00:01''"
      "failing InitConnection" sample_h]
  by (simp add: sample_cmd_def failing_def)

text \<open>
  C5. The claim has the socket closed on every exit path. Every run that does not get as
  far as the handshake (a \<^verbatim>\<open>setsockopt\<close> failure, \<open>-h\<close>, an unknown option, no operand or
  more than one, a \<^verbatim>\<open>connect\<close> failure) returns with the socket created and never closed:
  only the last \<^verbatim>\<open>return\<close> of \<^verbatim>\<open>main\<close> is preceded by \<^verbatim>\<open>close(sock)\<close>.
\<close>

theorem early_exit_leaves_socket_open:
  "\<not> reaches_handshake w cmd \<Longrightarrow>
     \<exists>r tl. main H w cmd = (Return r, Socket # tl) \<and> Close \<notin> set tl"
  using main_early [of w cmd H] by auto

theorem early_exit_leaves_socket_open_witness:
  "\<not> reaches_handshake all_ok (sample_cmd [] []) \<and>
   main sample_h all_ok (sample_cmd [] []) =
     (Return 1, [Socket, snd_timeout, rcv_timeout, Stderr AddressMissing, Usage ''based-connect''])"
  using early_exit_leaves_socket_open [of all_ok "sample_cmd [] []" sample_h]
  by (simp add: reaches_handshake_def sample_cmd_def main_def call_def all_ok_def)

text \<open>
  C6. The \<^verbatim>\<open>setsockopt\<close> calls of a run are the send timeout of 5 s alone (when it or the
  next one fails) or followed by the receive timeout of 1 s, and nothing else. In a run
  with a protocol operation both have succeeded, they come right after the socket's
  creation, hence before every protocol operation, and no \<^verbatim>\<open>setsockopt\<close> follows them.
\<close>

theorem timeouts_fixed_before_protocol:
  "(filter is_setsockopt (snd (main H w cmd)) = [snd_timeout] \<or>
    filter is_setsockopt (snd (main H w cmd)) = [snd_timeout, rcv_timeout]) \<and>
   ((\<exists>e\<in>set (snd (main H w cmd)). is_protocol_op e) \<longrightarrow>
      0 \<le> w [Socket] snd_timeout \<and> 0 \<le> w [Socket, snd_timeout] rcv_timeout \<and>
      (\<exists>rest. snd (main H w cmd) = Socket # snd_timeout # rcv_timeout # rest \<and>
         (\<forall>e\<in>set rest. \<not> is_setsockopt e)))"
proof (cases "reaches_handshake w cmd")
  case False
  from main_early [OF False, of H] obtain r tl where
    run: "main H w cmd = (Return r, Socket # snd_timeout # tl)" and
    tl: "\<forall>e\<in>set tl. \<not> is_protocol_op e \<and> e \<noteq> Close" and
    opts: "filter is_setsockopt tl \<in> {[], [rcv_timeout]}"
    by blast
  from run tl have "\<not> (\<exists>e\<in>set (snd (main H w cmd)). is_protocol_op e)"
    by (simp add: is_protocol_op_def)
  moreover from run opts
  have "filter is_setsockopt (snd (main H w cmd)) = [snd_timeout] \<or>
    filter is_setsockopt (snd (main H w cmd)) = [snd_timeout, rcv_timeout]"
    by auto
  ultimately show ?thesis by blast
next
  case True
  from main_late_shape [OF True, of H] obtain r calls k stop where
    run: "main H w cmd = (result r, prelude cmd @ InitConnection # calls @ stop @ epilogue r)" and
    evs: "\<forall>e\<in>set calls. is_setter e" and
    stop: "stop = [] \<or> k < length (options cmd) \<and>
        stop = [Stderr (rejection H (options cmd ! k))] \<and> r = Some 1"
    by blast
  let ?rest = "Connect (hd (operands cmd)) # InitConnection # calls @ stop @ epilogue r"
  have none: "filter is_setsockopt ?rest = []"
    using calls_all_ops(3) [OF evs] stop_no_ops(3) [OF stop] by simp
  then have rest: "\<forall>e\<in>set ?rest. \<not> is_setsockopt e"
    unfolding filter_empty_conv by blast
  have shape: "snd (main H w cmd) = Socket # snd_timeout # rcv_timeout # ?rest"
    using run by (simp add: prelude_def)
  have "filter is_setsockopt (snd (main H w cmd)) = [snd_timeout, rcv_timeout]"
    unfolding shape using none by simp
  moreover have "0 \<le> w [Socket] snd_timeout \<and> 0 \<le> w [Socket, snd_timeout] rcv_timeout"
    using True by (simp add: reaches_handshake_def)
  ultimately show ?thesis using shape rest by blast
qed

theorem timeouts_fixed_before_protocol_witness:
  "(\<exists>e\<in>set (snd (main sample_h all_ok (sample_cmd [(CHR ''o'', ''never'')] [''00:0C:8A:00:00:01'']))).
      is_protocol_op e) \<and>
   snd (main sample_h all_ok (sample_cmd [(CHR ''o'', ''never'')] [''00:0C:8A:00:00:01''])) =
     [Socket, snd_timeout, rcv_timeout, Connect ''00:0C:8A:00:00:01'', InitConnection,
      SetAutoOff AO_NEVER, Close]"
  using timeouts_fixed_before_protocol
    [of sample_h all_ok "sample_cmd [(CHR ''o'', ''never'')] [''00:0C:8A:00:00:01'']"]
  by (simp add: sample_cmd_def main_def call_def all_ok_def apply_option_def do_set_auto_off_def
      is_protocol_op_def)



text \<open>
  C4, as the code has it. For an option whose argument lies outside the closed enumeration
  of that option, no setter is called for the option itself or for any later one: the
  setter calls of the run are those of the first \<open>k\<close> options, with \<open>k\<close> at most the number of
  options before it. The argument is not checked before the protocol operations. In a
  run that reaches the handshake and in which every protocol operation returns 0, the
  program connects, performs the handshake and the setters of the options before the first
  option it rejects, which is the invalid one at the latest, and only then prints the
  rejection message of that option, closes the socket and returns 1; or else it ends in
  \<^verbatim>\<open>abort()\<close> at an earlier option, whose character it does not know.
\<close>

theorem invalid_setting_rejected_at_its_turn:
  assumes "options cmd = pre @ x # post" and "spec_invalid_setting x"
  shows "(\<exists>k\<le>length pre.
            map Some (filter is_setter (snd (main H w cmd))) = map (spec_setter H) (take k pre)) \<and>
         (reaches_handshake w cmd \<longrightarrow> (\<forall>t e. is_protocol_op e \<longrightarrow> w t e = 0) \<longrightarrow>
            (\<exists>k\<le>length pre. \<exists>calls.
               map Some calls = map (spec_setter H) (take k pre) \<and>
               (main H w cmd =
                  (Return 1,
                   prelude cmd @ InitConnection # calls @
                     [Stderr (rejection H ((pre @ [x]) ! k)), Close]) \<or>
                k < length pre \<and>
                main H w cmd = (Abort, prelude cmd @ InitConnection # calls))))"
proof (cases "reaches_handshake w cmd")
  case False
  from main_early [OF False, of H] obtain r tl where
    run: "main H w cmd = (Return r, Socket # snd_timeout # tl)" and
    tl: "\<forall>e\<in>set tl. \<not> is_protocol_op e \<and> e \<noteq> Close"
    by blast
  have "filter is_setter (snd (main H w cmd)) = []"
    using run tl by (auto simp add: filter_empty_conv is_protocol_op_def)
  then have "\<exists>k\<le>length pre.
      map Some (filter is_setter (snd (main H w cmd))) = map (spec_setter H) (take k pre)"
    by (intro exI [of _ 0]) simp
  with False show ?thesis by blast
next
  case True
  from main_late_shape [OF True, of H] obtain r calls k stop where
    run: "main H w cmd = (result r, prelude cmd @ InitConnection # calls @ stop @ epilogue r)" and
    table: "map Some calls = map (spec_setter H) (take k (options cmd))" and
    evs: "\<forall>e\<in>set calls. is_setter e" and
    stop: "stop = [] \<or> k < length (options cmd) \<and>
        stop = [Stderr (rejection H (options cmd ! k))] \<and> r = Some 1" and
    why: "k < length (options cmd) \<longrightarrow> stop = [] \<longrightarrow>
        w (prelude cmd) InitConnection \<noteq> 0 \<or>
        (\<exists>p e. calls = p @ [e] \<and> w (prelude cmd @ InitConnection # p) e \<noteq> 0) \<or>
        r = None \<and> fst (options cmd ! k) \<notin> {CHR ''n'', CHR ''c'', CHR ''o'', CHR ''l''}"
    by blast
  from spec_invalid_no_setter [OF assms(2), of H]
  have none: "spec_setter H x = None" and kind: "fst x \<in> {CHR ''c'', CHR ''o'', CHR ''l''}"
    by simp_all
  from table assms(1) have "map Some calls = map (spec_setter H) (take k (pre @ x # post))"
    by simp
  from take_before_none [OF this none]
  have k: "k \<le> length pre" and take: "take k (options cmd) = take k pre"
    using assms(1) by simp_all
  have table': "map Some calls = map (spec_setter H) (take k pre)"
    using table take by simp
  have nth: "options cmd ! k = (pre @ [x]) ! k"
    using k assms(1) by (simp add: nth_append)
  have setters: "filter is_setter (snd (main H w cmd)) = calls"
    using run calls_all_ops(2) [OF evs] stop_no_ops(2) [OF stop] by simp
  have first: "\<exists>k\<le>length pre.
      map Some (filter is_setter (snd (main H w cmd))) = map (spec_setter H) (take k pre)"
    using k table' setters by (intro exI [of _ k]) simp
  have second: "main H w cmd =
        (Return 1,
         prelude cmd @ InitConnection # calls @ [Stderr (rejection H ((pre @ [x]) ! k)), Close]) \<or>
      k < length pre \<and> main H w cmd = (Abort, prelude cmd @ InitConnection # calls)"
    if ok: "\<forall>t e. is_protocol_op e \<longrightarrow> w t e = 0"
  proof (cases "stop = []")
    case False
    with stop have "stop = [Stderr (rejection H (options cmd ! k))]" "r = Some 1" by simp_all
    with run nth show ?thesis by (simp add: result_def epilogue_def)
  next
    case stop_empty: True
    have less: "k < length (options cmd)" using k assms(1) by simp
    have "w (prelude cmd) InitConnection = 0"
      using ok by (simp add: is_protocol_op_def)
    moreover have "\<not> (\<exists>p e. calls = p @ [e] \<and> w (prelude cmd @ InitConnection # p) e \<noteq> 0)"
      using ok evs by (auto simp add: is_protocol_op_def)
    ultimately have r: "r = None"
      and other: "fst (options cmd ! k) \<notin> {CHR ''n'', CHR ''c'', CHR ''o'', CHR ''l''}"
      using why less stop_empty by blast+
    have "k \<noteq> length pre"
    proof
      assume "k = length pre"
      with nth have "options cmd ! k = x" by simp
      with other kind show False by auto
    qed
    with k have "k < length pre" by simp
    with run r stop_empty show ?thesis by (simp add: result_def epilogue_def)
  qed
  show ?thesis using first second k table' by blast
qed

theorem invalid_setting_rejected_at_its_turn_witness:
  "spec_invalid_setting (CHR ''l'', ''xx'') \<and>
   reaches_handshake all_ok
     (sample_cmd [(CHR ''c'', ''low''), (CHR ''l'', ''xx''), (CHR ''o'', ''never'')] [''00:0C:8A:00:00:01'']) \<and>
   main sample_h all_ok
     (sample_cmd [(CHR ''c'', ''low''), (CHR ''l'', ''xx''), (CHR ''o'', ''never'')] [''00:0C:8A:00:00:01'']) =
     (Return 1,
      [Socket, snd_timeout, rcv_timeout, Connect ''00:0C:8A:00:00:01'', InitConnection,
       SetNoiseCancelling NC_LOW, Stderr (InvalidPromptLanguage ''xx''), Close]) \<and>
   map (spec_setter sample_h) [(CHR ''c'', ''low'')] = [Some (SetNoiseCancelling NC_LOW)] \<and>
   rejection sample_h (CHR ''l'', ''xx'') = InvalidPromptLanguage ''xx''"
  using invalid_setting_rejected_at_its_turn
    [of "sample_cmd [(CHR ''c'', ''low''), (CHR ''l'', ''xx''), (CHR ''o'', ''never'')] [''00:0C:8A:00:00:01'']"
        "[(CHR ''c'', ''low'')]" "(CHR ''l'', ''xx'')" "[(CHR ''o'', ''never'')]" sample_h all_ok]
  by (simp add: sample_cmd_def spec_invalid_setting_def spec_prompt_language_def main_def call_def
      all_ok_def apply_option_def do_set_noise_cancelling_def do_set_prompt_language_def
      reaches_handshake_def spec_setter_def spec_noise_cancelling_def rejection_def)

text \<open>
  C4, as the claim states it, fails: with \<open>-c high -c loud\<close> the program connects,
  performs the handshake and sets the noise cancelling to high before it rejects \<open>loud\<close>.
\<close>

theorem invalid_setting_after_protocol_operations:
  "spec_invalid_setting (CHR ''c'', ''loud'') \<and>
   snd (main sample_h all_ok
        (sample_cmd [(CHR ''c'', ''high''), (CHR ''c'', ''loud'')] [''00:0C:8A:00:00:01''])) =
     [Socket, snd_timeout, rcv_timeout, Connect ''00:0C:8A:00:00:01'', InitConnection,
      SetNoiseCancelling NC_HIGH, Stderr (InvalidNoiseCancelling ''loud''), Close]"
  by (simp add: sample_cmd_def spec_invalid_setting_def spec_noise_cancelling_def main_def call_def
      all_ok_def apply_option_def do_set_noise_cancelling_def)

end
